theory Spec2Isabelle
  imports Complex_Main "HOL-Library.Word"
begin

unbundle bit_operations_syntax

section \<open>Python values\<close>

text \<open>
  A Python \<open>str\<close> is a \<open>string\<close>: one \<open>char\<close> per code point, for the code points
  below 256 (ASCII and Latin-1). \<open>len\<close> is \<open>length\<close> and the slice \<open>s[:k]\<close> is
  \<open>take k s\<close>. Python integers are unbounded: \<open>int\<close>, and \<open>nat\<close> for the positions
  \<open>enumerate\<close> yields.
\<close>

definition digit_char :: "nat \<Rightarrow> char" where
  "digit_char n = ''0123456789'' ! (n mod 10)"

fun str_nat :: "nat \<Rightarrow> string" where
  "str_nat n = (if n < 10 then [digit_char n] else str_nat (n div 10) @ [digit_char (n mod 10)])"

declare str_nat.simps [simp del]

definition str_int :: "int \<Rightarrow> string" where
  "str_int k = (if k < 0 then ''-'' @ str_nat (nat (- k)) else str_nat (nat k))"

text \<open>\<open>str.isspace\<close> on one character, for the code points below 256.\<close>

definition isspace :: "char \<Rightarrow> bool" where
  "isspace c = (of_char c \<in> {9, 10, 11, 12, 13, 28, 29, 30, 31, 32, 133, 160 :: nat})"

text \<open>\<open>str.strip()\<close>: whitespace dropped at both ends.\<close>

definition strip :: "string \<Rightarrow> string" where
  "strip s = rev (dropWhile isspace (rev (dropWhile isspace s)))"

text \<open>\<open>str.encode()\<close>: UTF-8, one byte below 128 and two bytes from 128 to 255.\<close>

type_synonym byte = "8 word"
type_synonym u32 = "32 word"

definition encode :: "string \<Rightarrow> byte list" where
  "encode s = concat (map (\<lambda>c. let n = (of_char c :: nat) in
       if n < 128 then [of_nat n] else [of_nat (192 + n div 64), of_nat (128 + n mod 64)]) s)"

section \<open>hashlib.md5\<close>

text \<open>
  \<open>_generate_id\<close> calls \<open>hashlib.md5(...).hexdigest()\<close>. MD5 (RFC 1321) is written
  out here so that fragment identifiers are computed, not assumed: 64 steps per
  64-byte block on four 32-bit words that wrap around, little-endian throughout.
\<close>

definition md5_K :: "u32 list" where
  "md5_K = [
    0xd76aa478, 0xe8c7b756, 0x242070db, 0xc1bdceee, 0xf57c0faf, 0x4787c62a, 0xa8304613, 0xfd469501,
    0x698098d8, 0x8b44f7af, 0xffff5bb1, 0x895cd7be, 0x6b901122, 0xfd987193, 0xa679438e, 0x49b40821,
    0xf61e2562, 0xc040b340, 0x265e5a51, 0xe9b6c7aa, 0xd62f105d, 0x02441453, 0xd8a1e681, 0xe7d3fbc8,
    0x21e1cde6, 0xc33707d6, 0xf4d50d87, 0x455a14ed, 0xa9e3e905, 0xfcefa3f8, 0x676f02d9, 0x8d2a4c8a,
    0xfffa3942, 0x8771f681, 0x6d9d6122, 0xfde5380c, 0xa4beea44, 0x4bdecfa9, 0xf6bb4b60, 0xbebfbc70,
    0x289b7ec6, 0xeaa127fa, 0xd4ef3085, 0x04881d05, 0xd9d4d039, 0xe6db99e5, 0x1fa27cf8, 0xc4ac5665,
    0xf4292244, 0x432aff97, 0xab9423a7, 0xfc93a039, 0x655b59c3, 0x8f0ccc92, 0xffeff47d, 0x85845dd1,
    0x6fa87e4f, 0xfe2ce6e0, 0xa3014314, 0x4e0811a1, 0xf7537e82, 0xbd3af235, 0x2ad7d2bb, 0xeb86d391]"

definition md5_s :: "nat list" where
  "md5_s = [7, 12, 17, 22, 7, 12, 17, 22, 7, 12, 17, 22, 7, 12, 17, 22,
            5, 9, 14, 20, 5, 9, 14, 20, 5, 9, 14, 20, 5, 9, 14, 20,
            4, 11, 16, 23, 4, 11, 16, 23, 4, 11, 16, 23, 4, 11, 16, 23,
            6, 10, 15, 21, 6, 10, 15, 21, 6, 10, 15, 21, 6, 10, 15, 21]"

definition rotl32 :: "nat \<Rightarrow> u32 \<Rightarrow> u32" where
  "rotl32 n x = push_bit n x OR drop_bit (32 - n) x"

type_synonym md5_state = "u32 \<times> u32 \<times> u32 \<times> u32"

definition md5_f :: "nat \<Rightarrow> u32 \<Rightarrow> u32 \<Rightarrow> u32 \<Rightarrow> u32" where
  "md5_f i b c d =
     (if i < 16 then (b AND c) OR (NOT b AND d)
      else if i < 32 then (d AND b) OR (NOT d AND c)
      else if i < 48 then b XOR c XOR d
      else c XOR (b OR NOT d))"

definition md5_g :: "nat \<Rightarrow> nat" where
  "md5_g i =
     (if i < 16 then i
      else if i < 32 then (5 * i + 1) mod 16
      else if i < 48 then (3 * i + 5) mod 16
      else (7 * i) mod 16)"

definition md5_step :: "u32 list \<Rightarrow> nat \<Rightarrow> md5_state \<Rightarrow> md5_state" where
  "md5_step M i st =
     (case st of (a, b, c, d) \<Rightarrow>
        (d, b + rotl32 (md5_s ! i) (md5_f i b c d + a + md5_K ! i + M ! md5_g i), b, c))"

fun le_word :: "byte list \<Rightarrow> u32" where
  "le_word [] = 0"
| "le_word (b # bs) = ucast b OR push_bit 8 (le_word bs)"

fun md5_words :: "nat \<Rightarrow> byte list \<Rightarrow> u32 list" where
  "md5_words 0 bs = []"
| "md5_words (Suc n) bs = le_word (take 4 bs) # md5_words n (drop 4 bs)"

definition md5_block :: "md5_state \<Rightarrow> byte list \<Rightarrow> md5_state" where
  "md5_block st block =
     (case st of (a0, b0, c0, d0) \<Rightarrow>
        (case fold (md5_step (md5_words 16 block)) [0..<64] st of
           (a, b, c, d) \<Rightarrow> (a0 + a, b0 + b, c0 + c, d0 + d)))"

fun md5_blocks :: "nat \<Rightarrow> md5_state \<Rightarrow> byte list \<Rightarrow> md5_state" where
  "md5_blocks 0 st bs = st"
| "md5_blocks (Suc n) st bs = md5_blocks n (md5_block st (take 64 bs)) (drop 64 bs)"

definition le_bytes :: "nat \<Rightarrow> 'a::len word \<Rightarrow> byte list" where
  "le_bytes k w = map (\<lambda>j. ucast (drop_bit (8 * j) w)) [0..<k]"

definition md5_pad :: "byte list \<Rightarrow> byte list" where
  "md5_pad bs = bs @ [0x80] @ replicate ((119 - length bs mod 64) mod 64) 0
                   @ le_bytes 8 (of_nat (8 * length bs) :: 64 word)"

definition md5_digest :: "byte list \<Rightarrow> byte list" where
  "md5_digest bs =
     (let p = md5_pad bs in
      case md5_blocks (length p div 64) (0x67452301, 0xefcdab89, 0x98badcfe, 0x10325476) p of
        (a, b, c, d) \<Rightarrow> concat (map (le_bytes 4) [a, b, c, d]))"

definition hex_chars :: string where
  "hex_chars = ''0123456789abcdef''"

definition hex_digit :: "nat \<Rightarrow> char" where
  "hex_digit n = hex_chars ! (n mod 16)"

definition hexdigest :: "byte list \<Rightarrow> string" where
  "hexdigest bs = concat (map (\<lambda>b. [hex_digit (unat b div 16), hex_digit (unat b mod 16)]) bs)"

definition md5_hexdigest :: "string \<Rightarrow> string" where
  "md5_hexdigest s = hexdigest (md5_digest (encode s))"

section \<open>Fragment identity\<close>

text \<open>
  \<open>VectorStore._generate_id(text, url)\<close>:
  \<^verbatim>\<open>content = f"{url}:{text[:100]}"; return hashlib.md5(content.encode()).hexdigest()\<close>
\<close>

definition generate_id :: "string \<Rightarrow> string \<Rightarrow> string" where
  "generate_id text url = md5_hexdigest (url @ '':'' @ take 100 text)"

section \<open>The chunker\<close>

text \<open>
  Modelled from the spec: the chunker is \<open>RecursiveCharacterTextSplitter\<close> of the
  third-party package \<open>langchain_text_splitters\<close>; its code is not under src/, which
  only configures it (\<open>chunk_size=1000, chunk_overlap=200, length_function=len\<close>, the
  separators paragraph break, line break, period and space, space, and the empty
  string). The definitions below follow section 4.1 of the spec: the separators are
  tried in order, the first one that occurs in the text splits it, a piece that is
  still too long is split again with the separators that come after, the empty
  separator cuts between characters, and short pieces are merged back into chunks
  that stay within the maximum, each new chunk starting with the tail (at most the
  overlap) of the one before. Every chunk is stripped and an empty one is dropped, so
  empty and whitespace-only text gives no chunk.
\<close>

text \<open>Does \<open>sep\<close> occur in \<open>text\<close>?\<close>

fun contains :: "string \<Rightarrow> string \<Rightarrow> bool" where
  "contains sep [] = (sep = [])"
| "contains sep (c # cs) = (take (length sep) (c # cs) = sep \<or> contains sep cs)"

text \<open>
  The pieces of \<open>text\<close> between the occurrences of a non-empty \<open>sep\<close>, found from
  left to right without overlap.
\<close>

function re_split :: "string \<Rightarrow> string \<Rightarrow> string list" where
  "re_split sep [] = [[]]"
| "re_split sep (c # cs) =
     (if sep \<noteq> [] \<and> take (length sep) (c # cs) = sep
      then [] # re_split sep (drop (length sep) (c # cs))
      else (case re_split sep cs of [] \<Rightarrow> [[c]] | p # ps \<Rightarrow> (c # p) # ps))"
  by pat_completeness auto
termination
  by (relation "measure (\<lambda>(sep, text). length text)") auto

text \<open>
  Splitting keeps the separator at the start of the piece that follows it; the empty
  separator gives the single characters. Empty pieces are dropped.
\<close>

definition split_text_with_regex :: "string \<Rightarrow> string \<Rightarrow> string list" where
  "split_text_with_regex text separator =
     (if separator \<noteq> [] then
        (case re_split separator text of
           [] \<Rightarrow> []
         | t0 # ts \<Rightarrow> filter (\<lambda>s. s \<noteq> []) (t0 # map (\<lambda>t. separator @ t) ts))
      else filter (\<lambda>s. s \<noteq> []) (map (\<lambda>c. [c]) text))"

text \<open>A chunk is the pieces joined and stripped; an empty chunk is no chunk.\<close>

definition join_docs :: "string list \<Rightarrow> string option" where
  "join_docs docs = (let text = strip (concat docs) in if text = [] then None else Some text)"

text \<open>
  When the next piece (of length \<open>l\<close>) does not fit, pieces are dropped from the front
  of the current chunk until what is left is no longer than the overlap and the next
  piece fits behind it.
\<close>

fun shrink :: "nat \<Rightarrow> nat \<Rightarrow> nat \<Rightarrow> string list \<Rightarrow> string list" where
  "shrink cs ov l [] = []"
| "shrink cs ov l (d # ds) =
     (let total = length (concat (d # ds)) in
      if total > ov \<or> (total + l > cs \<and> total > 0) then shrink cs ov l ds else d # ds)"

fun merge_splits :: "nat \<Rightarrow> nat \<Rightarrow> string list \<Rightarrow> string list \<Rightarrow> string list" where
  "merge_splits cs ov [] current_doc =
     (case join_docs current_doc of None \<Rightarrow> [] | Some doc \<Rightarrow> [doc])"
| "merge_splits cs ov (d # ds) current_doc =
     (if length (concat current_doc) + length d > cs \<and> current_doc \<noteq> []
      then (case join_docs current_doc of None \<Rightarrow> [] | Some doc \<Rightarrow> [doc])
             @ merge_splits cs ov ds (shrink cs ov (length d) current_doc @ [d])
      else merge_splits cs ov ds (current_doc @ [d]))"

text \<open>
  The first separator of the list that is empty or occurs in the text, with the
  separators after it (none after the empty one).
\<close>

fun choose_separator :: "string \<Rightarrow> string list \<Rightarrow> (string \<times> string list) option" where
  "choose_separator text [] = None"
| "choose_separator text (s # rest) =
     (if s = [] then Some ([], [])
      else if contains s text then Some (s, rest)
      else choose_separator text rest)"

text \<open>
  The pieces in order: pieces shorter than the maximum are collected and merged; a
  piece that is not goes to \<open>finer\<close>, the split with the remaining separators.
\<close>

fun process_splits ::
  "nat \<Rightarrow> nat \<Rightarrow> (string \<Rightarrow> string list) \<Rightarrow> string list \<Rightarrow> string list \<Rightarrow> string list" where
  "process_splits cs ov finer [] good = (if good \<noteq> [] then merge_splits cs ov good [] else [])"
| "process_splits cs ov finer (s # ss) good =
     (if length s < cs then process_splits cs ov finer ss (good @ [s])
      else (if good \<noteq> [] then merge_splits cs ov good [] else [])
             @ finer s @ process_splits cs ov finer ss [])"

lemma choose_separator_shorter:
  "choose_separator text seps = Some (s, rest) \<Longrightarrow> length rest < length seps"
  by (induction seps) (auto split: if_splits)

text \<open>
  Modelled from the spec: the recursive split of section 4.1 (the splitter's
  \<open>split_text\<close>, which is not under src/). The chosen separator splits the text
  and the pieces are processed with the separators after it. When no separator of the
  list occurs, the last one is used and nothing comes after
  it. The configured list is never empty (Python would raise IndexError on an empty
  one; the model gives no chunk there).
\<close>

function split_text_rec :: "nat \<Rightarrow> nat \<Rightarrow> string \<Rightarrow> string list \<Rightarrow> string list" where
  "split_text_rec cs ov text seps =
     (if seps = [] then []
      else
        (case (case choose_separator text seps of None \<Rightarrow> (last seps, []) | Some p \<Rightarrow> p) of
           (separator, new_separators) \<Rightarrow>
             process_splits cs ov
               (\<lambda>s. if new_separators = [] then [s] else split_text_rec cs ov s new_separators)
               (split_text_with_regex text separator) []))"
  by pat_completeness auto
termination
  by (relation "measure (\<lambda>(cs, ov, text, seps). length seps)")
     (auto split: option.splits dest: choose_separator_shorter)

declare split_text_rec.simps [simp del]

record text_splitter_config =
  chunk_size :: nat
  chunk_overlap :: nat
  separators :: "string list"

definition split_text :: "text_splitter_config \<Rightarrow> string \<Rightarrow> string list" where
  "split_text cfg text = split_text_rec (chunk_size cfg) (chunk_overlap cfg) text (separators cfg)"

text \<open>
  The splitter \<open>VectorStore.__init__\<close> configures:
  \<^verbatim>\<open>RecursiveCharacterTextSplitter(chunk_size=1000, chunk_overlap=200,
      length_function=len, separators=["\n\n", "\n", ". ", " ", ""])\<close>
\<close>

definition newline :: char where
  "newline = char_of (10 :: nat)"

definition configured_splitter :: text_splitter_config where
  "configured_splitter =
     \<lparr> chunk_size = 1000, chunk_overlap = 200,
       separators = [[newline, newline], [newline], ''. '', '' '', ''''] \<rparr>"

section \<open>Metadata and the Chroma collection\<close>

text \<open>
  A metadata record is a Python dict from field names to values: a map. The values
  the program writes are strings (the fields the caller passes) and integers
  (\<open>chunk_index\<close>, \<open>total_chunks\<close>); \<open>MNone\<close> is Python's \<open>None\<close>, which
  \<open>request.args.get\<close> gives for a request without a \<open>url\<close> argument.
\<close>

datatype mvalue = MStr string | MInt int | MNone

type_synonym metadata = "string \<rightharpoonup> mvalue"

text \<open>The text an f-string puts for a value: \<open>f"{v}"\<close>.\<close>

fun fstr :: "mvalue \<Rightarrow> string" where
  "fstr (MStr s) = s"
| "fstr (MInt k) = str_int k"
| "fstr MNone = ''None''"

datatype error = TypeError | ValueError | IndexError | KeyError | DuplicateIDError

text \<open>
  The index store is a collection of the third-party package \<open>chromadb\<close>, opened by
  \<open>PersistentClient.get_or_create_collection\<close> with the metric tag
  \<open>{"hnsw:space": "cosine"}\<close>. The model keeps what the program can observe of it:
  the entries in insertion order, each an id with its embedding, metadata and document,
  and the distance of the collection's metric (\<open>space\<close>; vectors and the cosine
  distance itself are not computed here, distances are real numbers). A collection
  that does not exist yet is the empty one.
\<close>

record 'v entry =
  entry_id :: string
  entry_embedding :: 'v
  entry_metadata :: metadata
  entry_document :: string

record 'v Collection =
  entries :: "'v entry list"
  space :: "'v \<Rightarrow> 'v \<Rightarrow> real"

definition collection_ids :: "'v Collection \<Rightarrow> string list" where
  "collection_ids c = map entry_id (entries c)"

text \<open>
  \<open>Collection.add(ids, embeddings, metadatas, documents)\<close>: the four lists are aligned
  by position. Chroma refuses an empty batch and lists of different lengths
  (ValueError) and an id that occurs twice in the batch (DuplicateIDError) before it
  writes anything. A record whose id is already in the collection is skipped: the
  existing entry stays as it is (\<open>add\<close> is not \<open>upsert\<close>). The other records are
  appended.
\<close>

definition batch_records ::
  "string list \<Rightarrow> 'v list \<Rightarrow> metadata list \<Rightarrow> string list \<Rightarrow> 'v entry list" where
  "batch_records ids embeddings metadatas documents =
     map (\<lambda>(i, e, m, d). \<lparr> entry_id = i, entry_embedding = e, entry_metadata = m,
                             entry_document = d \<rparr>)
         (zip ids (zip embeddings (zip metadatas documents)))"

definition collection_add ::
  "string list \<Rightarrow> 'v list \<Rightarrow> metadata list \<Rightarrow> string list \<Rightarrow> 'v Collection
     \<Rightarrow> error + 'v Collection" where
  "collection_add ids embeddings metadatas documents c =
     (if ids = [] \<or> length embeddings \<noteq> length ids \<or> length metadatas \<noteq> length ids
           \<or> length documents \<noteq> length ids
      then Inl ValueError
      else if \<not> distinct ids then Inl DuplicateIDError
      else Inr (c\<lparr> entries := entries c
                  @ filter (\<lambda>r. entry_id r \<notin> set (collection_ids c))
                      (batch_records ids embeddings metadatas documents) \<rparr>))"

text \<open>
  A \<open>where\<close> argument: \<open>None\<close>, or a dict whose fields must all be equal to the
  entry's.
\<close>

type_synonym where_clause = "(string \<times> mvalue) list option"

fun matches :: "where_clause \<Rightarrow> metadata \<Rightarrow> bool" where
  "matches None m = True"
| "matches (Some kvs) m = list_all (\<lambda>(k, v). m k = Some v) kvs"

text \<open>\<open>Collection.get(where=..., include=["metadatas"])\<close>: the matching entries, unranked.\<close>

record get_result =
  get_ids :: "string list"
  get_metadatas :: "metadata list"

definition collection_get :: "where_clause \<Rightarrow> 'v Collection \<Rightarrow> get_result" where
  "collection_get w c =
     (let hits = filter (\<lambda>r. matches w (entry_metadata r)) (entries c)
      in \<lparr> get_ids = map entry_id hits, get_metadatas = map entry_metadata hits \<rparr>)"

text \<open>\<open>Collection.delete(ids=...)\<close>: an id that is not there is no error.\<close>

definition collection_delete :: "string list \<Rightarrow> 'v Collection \<Rightarrow> 'v Collection" where
  "collection_delete ids c = c\<lparr> entries := filter (\<lambda>r. entry_id r \<notin> set ids) (entries c) \<rparr>"

definition collection_count :: "'v Collection \<Rightarrow> nat" where
  "collection_count c = length (entries c)"




section \<open>VectorStore\<close>

text \<open>
  The object's fields: the loaded sentence-transformer (\<open>encode\<close> on one text), the
  collection, and the splitter's \<open>split_text\<close>. \<open>calls\<close> is not a field of the source:
  it records, in order, the calls made to the embedder and to the collection, so that
  "is not called" can be stated.
\<close>

datatype call =
    Encode "string list"
  | CollectionAdd "string list"
  | CollectionQuery int
  | CollectionGet where_clause
  | CollectionDelete "string list"

record 'v VectorStore =
  embedding_model :: "string \<Rightarrow> 'v"
  collection :: "'v Collection"
  text_splitter :: "string \<Rightarrow> string list"
  calls :: "call list"

text \<open>
  \<open>VectorStore.__init__\<close>, given the loaded model and the collection that
  \<open>get_or_create_collection\<close> returns.
\<close>

definition VectorStore_init :: "(string \<Rightarrow> 'v) \<Rightarrow> 'v Collection \<Rightarrow> 'v VectorStore" where
  "VectorStore_init model persisted =
     \<lparr> embedding_model = model, collection = persisted,
       text_splitter = split_text configured_splitter, calls = [] \<rparr>"

text \<open>\<open>_get_embeddings(texts)\<close>: one vector per text, in order.\<close>

definition get_embeddings :: "'v VectorStore \<Rightarrow> string list \<Rightarrow> 'v list" where
  "get_embeddings vs texts = map (embedding_model vs) texts"

text \<open>
  \<open>add_document(content, metadata)\<close>. The loop over \<open>enumerate(chunks)\<close> appends one
  id, one metadata record and one document per chunk; \<open>{**metadata, 'chunk_index': i,
  'total_chunks': len(chunks)}\<close> is the map updated at the two fields. The result is the
  returned count, or the error \<open>collection.add\<close> raised, with the store afterwards.
\<close>

definition chunk_ids :: "mvalue \<Rightarrow> string list \<Rightarrow> string list" where
  "chunk_ids url chunks =
     map (\<lambda>(i, chunk). generate_id chunk (fstr url @ ''_'' @ str_nat i)) (enumerate 0 chunks)"

definition chunk_metadatas :: "metadata \<Rightarrow> string list \<Rightarrow> metadata list" where
  "chunk_metadatas metadata chunks =
     map (\<lambda>(i, chunk). metadata(''chunk_index'' \<mapsto> MInt (int i),
                                 ''total_chunks'' \<mapsto> MInt (int (length chunks))))
         (enumerate 0 chunks)"

text \<open>\<open>metadata.get(key, default)\<close>\<close>

definition dict_get :: "metadata \<Rightarrow> string \<Rightarrow> mvalue \<Rightarrow> mvalue" where
  "dict_get m key dflt = (case m key of None \<Rightarrow> dflt | Some v \<Rightarrow> v)"

definition add_document ::
  "string \<Rightarrow> metadata \<Rightarrow> 'v VectorStore \<Rightarrow> (error + nat) \<times> 'v VectorStore" where
  "add_document content metadata vs =
     (let chunks = text_splitter vs content in
      if chunks = [] then (Inr 0, vs)
      else
        let url = dict_get metadata ''url'' (MStr ''unknown'');
            ids = chunk_ids url chunks;
            metadatas = chunk_metadatas metadata chunks;
            documents = chunks;
            embeddings = get_embeddings vs documents;
            vs1 = vs\<lparr> calls := calls vs @ [Encode documents, CollectionAdd ids] \<rparr>
        in case collection_add ids embeddings metadatas documents (collection vs) of
             Inl e \<Rightarrow> (Inl e, vs1)
           | Inr c \<Rightarrow> (Inr (length chunks), vs1\<lparr> collection := c \<rparr>))"










text \<open>
  \<open>delete_by_url(url)\<close>: the entries whose \<open>url\<close> field is the argument; when there
  is none, the entries whose \<open>source\<close> field is; the ids found are deleted and counted.
\<close>

definition delete_by_url :: "string \<Rightarrow> 'v VectorStore \<Rightarrow> nat \<times> 'v VectorStore" where
  "delete_by_url url vs =
     (let by_url = collection_get (Some [(''url'', MStr url)]) (collection vs);
          results = (if get_ids by_url = []
                     then collection_get (Some [(''source'', MStr url)]) (collection vs)
                     else by_url);
          gets = (if get_ids by_url = []
                  then [CollectionGet (Some [(''url'', MStr url)]),
                        CollectionGet (Some [(''source'', MStr url)])]
                  else [CollectionGet (Some [(''url'', MStr url)])])
      in if get_ids results \<noteq> []
         then (length (get_ids results),
               vs\<lparr> collection := collection_delete (get_ids results) (collection vs),
                   calls := calls vs @ gets @ [CollectionDelete (get_ids results)] \<rparr>)
         else (0, vs\<lparr> calls := calls vs @ gets \<rparr>))"

section \<open>WebScraper and the /process route\<close>

text \<open>
  What the scraper takes from outside the repository: \<open>urlparse\<close> (scheme and
  netloc of a URL), \<open>requests.get\<close> followed by \<open>raise_for_status\<close> (the body, or
  \<open>None\<close> for a RequestException), and the BeautifulSoup and html2text steps of
  \<open>extract_text\<close> and \<open>extract_metadata\<close> (the text of the main content, the title
  and description lookups).
\<close>

record web =
  url_scheme :: "string \<Rightarrow> string"
  url_netloc :: "string \<Rightarrow> string"
  requests_get :: "string \<Rightarrow> string option"
  main_content_text :: "string \<Rightarrow> string"
  title_string :: "string \<Rightarrow> string option"
  og_title :: "string \<Rightarrow> string option"
  meta_description :: "string \<Rightarrow> string option"
  og_description :: "string \<Rightarrow> string option"

text \<open>
  \<open>fetch_url(url)\<close>: a scheme other than http and https raises ValueError, which is
  caught like a RequestException: the result is \<open>None\<close>.
\<close>

definition fetch_url :: "web \<Rightarrow> string \<Rightarrow> string option" where
  "fetch_url w url =
     (if url_scheme w url \<notin> {''http'', ''https''} then None else requests_get w url)"

text \<open>\<open>extract_text\<close>: the lines of the converted text, stripped, the empty ones dropped.\<close>

definition join_lines :: "string list \<Rightarrow> string" where
  "join_lines ls = (case ls of [] \<Rightarrow> [] | l # rest \<Rightarrow> l @ concat (map (\<lambda>x. newline # x) rest))"

definition extract_text :: "web \<Rightarrow> string \<Rightarrow> string" where
  "extract_text w html_content =
     join_lines (filter (\<lambda>line. line \<noteq> [])
                   (map strip (re_split [newline] (main_content_text w html_content))))"

text \<open>\<open>x or y\<close> on an optional string: \<open>None\<close> and the empty string are false.\<close>

definition or_else :: "string option \<Rightarrow> string option \<Rightarrow> string option" where
  "or_else x y = (case x of None \<Rightarrow> y | Some s \<Rightarrow> if s = [] then y else Some s)"

definition extract_metadata :: "web \<Rightarrow> string \<Rightarrow> string \<Rightarrow> metadata" where
  "extract_metadata w html_content url =
     (let title = or_else (title_string w html_content) (og_title w html_content);
          description = or_else (meta_description w html_content) (og_description w html_content)
      in [''url'' \<mapsto> MStr url,
          ''title'' \<mapsto> MStr (case or_else title (Some ''Unknown'') of None \<Rightarrow> [] | Some t \<Rightarrow> t),
          ''description'' \<mapsto> MStr (case or_else description (Some []) of None \<Rightarrow> [] | Some d \<Rightarrow> d),
          ''domain'' \<mapsto> MStr (url_netloc w url)])"

text \<open>
  \<open>scrape(url)\<close>: \<open>None\<close> when the fetch gave \<open>None\<close> or an empty body. The route
  passes \<open>request.args.get("url")\<close>, which is \<open>None\<close> for a request without the
  argument; \<open>urlparse(None)\<close> has an empty scheme, so \<open>fetch_url\<close> returns \<open>None\<close>
  there too.
\<close>

record scrape_result =
  sr_content :: string
  sr_metadata :: metadata

definition scrape :: "web \<Rightarrow> string option \<Rightarrow> scrape_result option" where
  "scrape w url =
     (case url of
        None \<Rightarrow> None
      | Some u \<Rightarrow>
          (case fetch_url w u of
             None \<Rightarrow> None
           | Some html_content \<Rightarrow>
               if html_content = [] then None
               else Some \<lparr> sr_content = extract_text w html_content,
                           sr_metadata = extract_metadata w html_content u \<rparr>))"

text \<open>
  \<open>process()\<close> of main.py, for the request argument \<open>source_url\<close>, on the persisted
  collection: the response or the exception that ends the request, the collection
  afterwards, and the calls the request's VectorStore made. \<open>result['content']\<close> on
  \<open>None\<close> is a TypeError; it is evaluated after \<open>VectorStore()\<close> is built.
\<close>

definition process ::
  "web \<Rightarrow> (string \<Rightarrow> 'v) \<Rightarrow> string option \<Rightarrow> 'v Collection
     \<Rightarrow> (error + string) \<times> 'v Collection \<times> call list" where
  "process w model source_url persisted =
     (let result = scrape w source_url;
          store = VectorStore_init model persisted
      in case result of
           None \<Rightarrow> (Inl TypeError, collection store, calls store)
         | Some r \<Rightarrow>
             (case sr_metadata r ''title'' of
                None \<Rightarrow> (Inl KeyError, collection store, calls store)
              | Some title \<Rightarrow>
                  let metadata = [''url'' \<mapsto> (case source_url of None \<Rightarrow> MNone | Some u \<Rightarrow> MStr u),
                                  ''title'' \<mapsto> title]
                  in (case add_document (sr_content r) metadata store of
                        (Inl e, store') \<Rightarrow> (Inl e, collection store', calls store')
                      | (Inr chunks_added, store') \<Rightarrow>
                          (Inr ''process completed'', collection store', calls store'))))"

section \<open>A small store for examples\<close>

text \<open>
  The examples below run on a store built by \<open>VectorStore.__init__\<close> on an empty
  collection. Its embedder and metric stand in for the sentence-transformer and the
  cosine distance, which are not computed here: a text is embedded as its length, and
  the distance of two embeddings is the absolute difference.
\<close>

definition demo_model :: "string \<Rightarrow> int" where
  "demo_model t = int (length t)"

definition demo_space :: "int \<Rightarrow> int \<Rightarrow> real" where
  "demo_space a b = \<bar>real_of_int a - real_of_int b\<bar>"

definition empty_collection :: "int Collection" where
  "empty_collection = \<lparr> entries = [], space = demo_space \<rparr>"

definition demo_store :: "int VectorStore" where
  "demo_store = VectorStore_init demo_model empty_collection"

text \<open>
  A web for examples: the scheme of a URL is what stands before the first colon, and
  every request fails.
\<close>

definition demo_web :: web where
  "demo_web =
     \<lparr> url_scheme = takeWhile (\<lambda>c. c \<noteq> CHR '':''), url_netloc = (\<lambda>u. []),
       requests_get = (\<lambda>u. None), main_content_text = (\<lambda>h. h),
       title_string = (\<lambda>h. None), og_title = (\<lambda>h. None),
       meta_description = (\<lambda>h. None), og_description = (\<lambda>h. None) \<rparr>"

text \<open>
  A collection with one fragment of the page \<open>http://a.example/\<close> and one fragment of
  the uploaded file \<open>b.txt\<close>, which has a \<open>source\<close> field and no \<open>url\<close>; both have
  the content \<open>hello\<close>. The ids are the ones \<open>add_document\<close> derives for them.
\<close>

definition two_sources :: "int Collection" where
  "two_sources =
     \<lparr> entries =
         [\<lparr> entry_id = ''1769095beed828ab0402d55079411950'', entry_embedding = 5,
            entry_metadata = [''url'' \<mapsto> MStr ''http://a.example/'',
                              ''chunk_index'' \<mapsto> MInt 0, ''total_chunks'' \<mapsto> MInt 1],
            entry_document = ''hello'' \<rparr>,
          \<lparr> entry_id = ''eb35c41484599737f68232f8a516d276'', entry_embedding = 5,
            entry_metadata = [''source'' \<mapsto> MStr ''b.txt'',
                              ''chunk_index'' \<mapsto> MInt 0, ''total_chunks'' \<mapsto> MInt 1],
            entry_document = ''hello'' \<rparr>],
       space = demo_space \<rparr>"


section \<open>Facts about the collection\<close>






lemma length_chunk_ids [simp]: "length (chunk_ids url chunks) = length chunks"
  by (simp add: chunk_ids_def)

lemma length_chunk_metadatas [simp]: "length (chunk_metadatas md chunks) = length chunks"
  by (simp add: chunk_metadatas_def)

lemma chunk_ids_Nil [simp]: "chunk_ids url chunks = [] \<longleftrightarrow> chunks = []"
  using length_chunk_ids [of url chunks] by (metis length_0_conv)

lemma chunk_ids_empty [simp]: "chunk_ids url [] = []"
  by (simp add: chunk_ids_def)



text \<open>The three outcomes of \<open>add_document\<close>.\<close>

lemma add_document_empty:
  "text_splitter vs content = [] \<Longrightarrow> add_document content md vs = (Inr 0, vs)"
  by (simp add: add_document_def)



lemma add_document_splitter [simp]:
  "text_splitter (snd (add_document content md vs)) = text_splitter vs"
  by (simp add: add_document_def Let_def split: sum.splits)

lemma add_document_model [simp]:
  "embedding_model (snd (add_document content md vs)) = embedding_model vs"
  by (simp add: add_document_def Let_def split: sum.splits)



text \<open>Evaluating \<open>add_document\<close> on the example store.\<close>

lemma split_text_hello: "split_text configured_splitter ''hello'' = [''hello'']"
  by code_simp



section \<open>Fragment identity\<close>

lemma length_le_bytes: "length (le_bytes k w) = k"
  by (simp add: le_bytes_def)

lemma length_md5_digest: "length (md5_digest bs) = 16"
  by (simp add: md5_digest_def Let_def length_le_bytes split: prod.splits)

lemma length_hexdigest: "length (hexdigest bs) = 2 * length bs"
  by (induction bs) (simp_all add: hexdigest_def)

lemma hex_digit_in: "hex_digit n \<in> set hex_chars"
  unfolding hex_digit_def by (rule nth_mem) (simp add: hex_chars_def)

lemma hexdigest_chars: "list_all (\<lambda>c. c \<in> set hex_chars) (hexdigest bs)"
  by (induction bs) (simp_all add: hexdigest_def hex_digit_in)

text \<open>
  The digest of RFC 1321's test string, and the id of the example fragment \<open>hello\<close>
  of the page \<open>http://a.example/\<close>, as \<open>hashlib\<close> gives them.
\<close>

lemma md5_hexdigest_abc: "md5_hexdigest ''abc'' = ''900150983cd24fb0d6963f7d28e17f72''"
  by code_simp

lemma generate_id_example:
  "generate_id ''hello'' (''http://a.example/'' @ ''_'' @ str_nat 0)
     = ''1769095beed828ab0402d55079411950''"
  by code_simp

text \<open>
  C3. The id of the chunk at position \<open>i\<close> of source \<open>s\<close> is
  \<open>generate_id chunk (s @ ''_'' @ str_nat i)\<close>, as \<open>add_document\<close> calls it. It is a
  function of the source, the position and the first 100 characters of the chunk: two
  chunks that agree on their first 100 characters get the same id. It is always 32
  characters long, each a lower-case hexadecimal digit.
\<close>

theorem generate_id_prefix:
  assumes "take 100 c1 = take 100 c2"
  shows "generate_id c1 (s @ ''_'' @ str_nat i) = generate_id c2 (s @ ''_'' @ str_nat i)
       \<and> length (generate_id c1 (s @ ''_'' @ str_nat i)) = 32
       \<and> list_all (\<lambda>c. c \<in> set hex_chars) (generate_id c1 (s @ ''_'' @ str_nat i))"
  using assms
  by (simp add: generate_id_def md5_hexdigest_def length_hexdigest length_md5_digest hexdigest_chars)

theorem generate_id_prefix_witness:
  "take 100 (replicate 100 CHR ''a'' @ ''x'') = take 100 (replicate 100 CHR ''a'' @ ''y'')
   \<and> replicate 100 CHR ''a'' @ ''x'' \<noteq> replicate 100 CHR ''a'' @ ''y''
   \<and> generate_id (replicate 100 CHR ''a'' @ ''x'') (''u'' @ ''_'' @ str_nat 0)
     = generate_id (replicate 100 CHR ''a'' @ ''y'') (''u'' @ ''_'' @ str_nat 0)
   \<and> length (generate_id (replicate 100 CHR ''a'' @ ''x'') (''u'' @ ''_'' @ str_nat 0)) = 32"
proof -
  have h: "take 100 (replicate 100 CHR ''a'' @ ''x'') = take 100 (replicate 100 CHR ''a'' @ ''y'')"
    by simp
  have d: "replicate 100 CHR ''a'' @ ''x'' \<noteq> replicate 100 CHR ''a'' @ ''y''"
    by simp
  from generate_id_prefix [OF h, of "''u''" 0] h d show ?thesis
    by blast
qed

section \<open>Re-ingestion\<close>




section \<open>What add_document stores\<close>





section \<open>Documents without a url\<close>





section \<open>A failed scrape\<close>

lemma scrape_None_iff:
  "scrape w url = None \<longleftrightarrow>
     (url = None \<or> (\<exists>u. url = Some u \<and>
        (url_scheme w u \<notin> {''http'', ''https''} \<or> requests_get w u = None
          \<or> requests_get w u = Some [])))"
  by (auto simp: scrape_def fetch_url_def split: option.splits if_splits)

text \<open>
  C2. \<open>scrape\<close> returns \<open>None\<close> exactly when there is no URL, the scheme is neither http
  nor https, the request fails, or the body is empty. Then \<open>process\<close> ends with the
  TypeError of \<open>result['content']\<close>: \<open>add_document\<close> is never reached, the collection is
  what it was, and neither the embedder nor the collection has been called.
\<close>

theorem process_scrape_failure:
  "(scrape w source_url = None \<longleftrightarrow>
      (source_url = None \<or> (\<exists>u. source_url = Some u \<and>
         (url_scheme w u \<notin> {''http'', ''https''} \<or> requests_get w u = None
           \<or> requests_get w u = Some []))))
   \<and> (scrape w source_url = None \<longrightarrow>
        process w model source_url persisted = (Inl TypeError, persisted, []))"
proof (intro conjI impI)
  show "scrape w source_url = None \<longleftrightarrow>
      (source_url = None \<or> (\<exists>u. source_url = Some u \<and>
         (url_scheme w u \<notin> {''http'', ''https''} \<or> requests_get w u = None
           \<or> requests_get w u = Some [])))"
    by (rule scrape_None_iff)
next
  assume "scrape w source_url = None"
  then show "process w model source_url persisted = (Inl TypeError, persisted, [])"
    by (simp add: process_def Let_def VectorStore_init_def)
qed

theorem process_scrape_failure_witness:
  "scrape demo_web (Some ''ftp://example.org/a'') = None
   \<and> scrape demo_web (Some ''http://example.org/a'') = None
   \<and> process demo_web demo_model (Some ''ftp://example.org/a'') empty_collection
       = (Inl TypeError, empty_collection, [])"
proof -
  have 1: "scrape demo_web (Some ''ftp://example.org/a'') = None"
    by (simp add: scrape_def fetch_url_def demo_web_def)
  have 2: "scrape demo_web (Some ''http://example.org/a'') = None"
    by (simp add: scrape_def fetch_url_def demo_web_def)
  from process_scrape_failure [of demo_web "Some ''ftp://example.org/a''" demo_model empty_collection] 1 2
  show ?thesis by blast
qed

section \<open>Deleting a source\<close>

lemma collection_get_ids:
  "get_ids (collection_get (Some [(k, v)]) c)
     = map entry_id (filter (\<lambda>r. entry_metadata r k = Some v) (entries c))"
  by (simp add: collection_get_def Let_def)

text \<open>The three ways through \<open>delete_by_url\<close>.\<close>

lemma delete_by_url_url:
  assumes "filter (\<lambda>r. entry_metadata r ''url'' = Some (MStr s)) (entries (collection vs)) = m"
    and "m \<noteq> []"
  shows "fst (delete_by_url s vs) = length m"
    and "collection (snd (delete_by_url s vs)) = collection_delete (map entry_id m) (collection vs)"
  using assms by (simp_all add: delete_by_url_def collection_get_ids Let_def)

lemma delete_by_url_source:
  assumes "filter (\<lambda>r. entry_metadata r ''url'' = Some (MStr s)) (entries (collection vs)) = []"
    and "filter (\<lambda>r. entry_metadata r ''source'' = Some (MStr s)) (entries (collection vs)) = m"
    and "m \<noteq> []"
  shows "fst (delete_by_url s vs) = length m"
    and "collection (snd (delete_by_url s vs)) = collection_delete (map entry_id m) (collection vs)"
  using assms by (simp_all add: delete_by_url_def collection_get_ids Let_def)

lemma delete_by_url_none:
  assumes "filter (\<lambda>r. entry_metadata r ''url'' = Some (MStr s)) (entries (collection vs)) = []"
    and "filter (\<lambda>r. entry_metadata r ''source'' = Some (MStr s)) (entries (collection vs)) = []"
  shows "fst (delete_by_url s vs) = 0"
    and "collection (snd (delete_by_url s vs)) = collection vs"
  using assms by (simp_all add: delete_by_url_def collection_get_ids Let_def)

lemma delete_matched_distinct:
  assumes "distinct (collection_ids c)" and "m = filter P (entries c)"
  shows "filter (\<lambda>r. entry_id r \<notin> set (map entry_id m)) (entries c)
           = filter (\<lambda>r. r \<notin> set m) (entries c)"
    and "length (filter (\<lambda>r. r \<notin> set m) (entries c)) + length m = length (entries c)"
proof -
  have inj: "inj_on entry_id (set (entries c))"
    using assms(1) by (simp add: collection_ids_def distinct_map)
  have sub: "set m \<subseteq> set (entries c)" using assms(2) by auto
  have "entry_id r \<in> set (map entry_id m) \<longleftrightarrow> r \<in> set m" if r: "r \<in> set (entries c)" for r
  proof
    assume "entry_id r \<in> set (map entry_id m)"
    then obtain r' where "r' \<in> set m" "entry_id r' = entry_id r" by auto
    with sub r inj show "r \<in> set m" by (metis inj_onD subsetD)
  next
    assume "r \<in> set m" then show "entry_id r \<in> set (map entry_id m)" by simp
  qed
  then show "filter (\<lambda>r. entry_id r \<notin> set (map entry_id m)) (entries c)
           = filter (\<lambda>r. r \<notin> set m) (entries c)"
    by (intro filter_cong) auto
  have "filter (\<lambda>r. r \<in> set m) (entries c) = filter P (entries c)"
    using assms(2) by (intro filter_cong) auto
  then have "length m = length (filter (\<lambda>r. r \<in> set m) (entries c))"
    using assms(2) by simp
  then show "length (filter (\<lambda>r. r \<notin> set m) (entries c)) + length m = length (entries c)"
    using sum_length_filter_compl [of "\<lambda>r. r \<in> set m" "entries c"] by simp
qed

lemma delete_by_url_cases:
  assumes "m = (if filter (\<lambda>r. entry_metadata r ''url'' = Some (MStr s)) (entries (collection vs)) \<noteq> []
                then filter (\<lambda>r. entry_metadata r ''url'' = Some (MStr s)) (entries (collection vs))
                else filter (\<lambda>r. entry_metadata r ''source'' = Some (MStr s)) (entries (collection vs)))"
  shows "fst (delete_by_url s vs) = length m"
    and "entries (collection (snd (delete_by_url s vs)))
           = filter (\<lambda>r. entry_id r \<notin> set (map entry_id m)) (entries (collection vs))"
    and "space (collection (snd (delete_by_url s vs))) = space (collection vs)"
    and "m = [] \<Longrightarrow> collection (snd (delete_by_url s vs)) = collection vs"
    and "\<exists>P. m = filter P (entries (collection vs))"
proof -
  let ?u = "filter (\<lambda>r. entry_metadata r ''url'' = Some (MStr s)) (entries (collection vs))"
  let ?s = "filter (\<lambda>r. entry_metadata r ''source'' = Some (MStr s)) (entries (collection vs))"
  consider (url) "?u \<noteq> []" | (source) "?u = []" "?s \<noteq> []" | (none) "?u = []" "?s = []"
    by blast
  then have "fst (delete_by_url s vs) = length m
    \<and> entries (collection (snd (delete_by_url s vs)))
           = filter (\<lambda>r. entry_id r \<notin> set (map entry_id m)) (entries (collection vs))
    \<and> space (collection (snd (delete_by_url s vs))) = space (collection vs)
    \<and> (m = [] \<longrightarrow> collection (snd (delete_by_url s vs)) = collection vs)
    \<and> (\<exists>P. m = filter P (entries (collection vs)))"
  proof cases
    case url
    then have m: "m = ?u" using assms by simp
    from delete_by_url_url [OF refl url] url show ?thesis
      unfolding m by (auto simp: collection_delete_def)
  next
    case source
    then have m: "m = ?s" using assms by simp
    from delete_by_url_source [OF source(1) refl source(2)] source show ?thesis
      unfolding m by (auto simp: collection_delete_def)
  next
    case none
    then have m: "m = []" using assms by simp
    have "\<exists>P. [] = filter P (entries (collection vs))"
      by (rule exI [of _ "\<lambda>r. False"]) simp
    with delete_by_url_none [OF none] show ?thesis
      unfolding m by simp
  qed
  then show "fst (delete_by_url s vs) = length m"
    and "entries (collection (snd (delete_by_url s vs)))
           = filter (\<lambda>r. entry_id r \<notin> set (map entry_id m)) (entries (collection vs))"
    and "space (collection (snd (delete_by_url s vs))) = space (collection vs)"
    and "m = [] \<Longrightarrow> collection (snd (delete_by_url s vs)) = collection vs"
    and "\<exists>P. m = filter P (entries (collection vs))"
    by blast+
qed

text \<open>
  C6. With \<open>by_url\<close> the entries whose \<open>url\<close> field is \<open>s\<close> and \<open>by_source\<close> those whose
  \<open>source\<close> field is \<open>s\<close>, the matched entries are \<open>by_url\<close> when there are any and
  \<open>by_source\<close> otherwise. \<open>delete_by_url s\<close> returns their number, removes the entries
  that carry one of their ids and keeps every other entry; when neither field matches
  it returns 0 and the collection is what it was. It has no error result. When the ids
  of the collection are pairwise distinct, what is removed is exactly the matched
  entries, and \<open>count()\<close> goes down by the number returned.
\<close>

theorem delete_by_url_matched:
  "(let c = collection vs;
        by_url = filter (\<lambda>r. entry_metadata r ''url'' = Some (MStr s)) (entries c);
        by_source = filter (\<lambda>r. entry_metadata r ''source'' = Some (MStr s)) (entries c);
        matched = (if by_url \<noteq> [] then by_url else by_source);
        c' = collection (snd (delete_by_url s vs))
    in fst (delete_by_url s vs) = length matched
       \<and> entries c' = filter (\<lambda>r. entry_id r \<notin> set (map entry_id matched)) (entries c)
       \<and> space c' = space c
       \<and> (matched = [] \<longrightarrow> fst (delete_by_url s vs) = 0 \<and> c' = c)
       \<and> (distinct (collection_ids c) \<longrightarrow>
            entries c' = filter (\<lambda>r. r \<notin> set matched) (entries c)
            \<and> collection_count c' + fst (delete_by_url s vs) = collection_count c))"
proof -
  define m where "m = (if filter (\<lambda>r. entry_metadata r ''url'' = Some (MStr s)) (entries (collection vs)) \<noteq> []
                then filter (\<lambda>r. entry_metadata r ''url'' = Some (MStr s)) (entries (collection vs))
                else filter (\<lambda>r. entry_metadata r ''source'' = Some (MStr s)) (entries (collection vs)))"
  note f = delete_by_url_cases [OF m_def]
  have z: "m = [] \<longrightarrow> fst (delete_by_url s vs) = 0 \<and> collection (snd (delete_by_url s vs)) = collection vs"
    using f(1) f(4) by simp
  have d: "distinct (collection_ids (collection vs)) \<longrightarrow>
            entries (collection (snd (delete_by_url s vs))) = filter (\<lambda>r. r \<notin> set m) (entries (collection vs))
            \<and> collection_count (collection (snd (delete_by_url s vs))) + fst (delete_by_url s vs)
                = collection_count (collection vs)"
  proof
    assume dist: "distinct (collection_ids (collection vs))"
    from f(5) obtain P where P: "m = filter P (entries (collection vs))" by blast
    from delete_matched_distinct [OF dist P] f(1) f(2)
    show "entries (collection (snd (delete_by_url s vs))) = filter (\<lambda>r. r \<notin> set m) (entries (collection vs))
            \<and> collection_count (collection (snd (delete_by_url s vs))) + fst (delete_by_url s vs)
                = collection_count (collection vs)"
      by (simp add: collection_count_def)
  qed
  from f(1) f(2) f(3) z d show ?thesis
    unfolding Let_def m_def [symmetric] by blast
qed

theorem delete_by_url_matched_witness:
  "distinct (collection_ids two_sources)
   \<and> fst (delete_by_url ''http://a.example/'' (VectorStore_init demo_model two_sources)) = 1
   \<and> map entry_id (entries (collection
         (snd (delete_by_url ''http://a.example/'' (VectorStore_init demo_model two_sources)))))
       = [''eb35c41484599737f68232f8a516d276'']
   \<and> collection_count (collection
         (snd (delete_by_url ''http://a.example/'' (VectorStore_init demo_model two_sources)))) = 1
   \<and> fst (delete_by_url ''b.txt'' (VectorStore_init demo_model two_sources)) = 1
   \<and> map entry_id (entries (collection
         (snd (delete_by_url ''b.txt'' (VectorStore_init demo_model two_sources)))))
       = [''1769095beed828ab0402d55079411950'']
   \<and> fst (delete_by_url ''c.txt'' (VectorStore_init demo_model two_sources)) = 0
   \<and> collection (snd (delete_by_url ''c.txt'' (VectorStore_init demo_model two_sources)))
       = two_sources"
proof -
  have d: "distinct (collection_ids two_sources)"
    by (simp add: collection_ids_def two_sources_def)
  have c: "collection (VectorStore_init demo_model two_sources) = two_sources"
    by (simp add: VectorStore_init_def)
  have n: "collection_count two_sources = 2"
    by (simp add: collection_count_def two_sources_def)
  have e: "entries two_sources =
         [\<lparr> entry_id = ''1769095beed828ab0402d55079411950'', entry_embedding = 5,
            entry_metadata = [''url'' \<mapsto> MStr ''http://a.example/'',
                              ''chunk_index'' \<mapsto> MInt 0, ''total_chunks'' \<mapsto> MInt 1],
            entry_document = ''hello'' \<rparr>,
          \<lparr> entry_id = ''eb35c41484599737f68232f8a516d276'', entry_embedding = 5,
            entry_metadata = [''source'' \<mapsto> MStr ''b.txt'',
                              ''chunk_index'' \<mapsto> MInt 0, ''total_chunks'' \<mapsto> MInt 1],
            entry_document = ''hello'' \<rparr>]"
    by (simp add: two_sources_def)
  from delete_by_url_matched [of "VectorStore_init demo_model two_sources" "''http://a.example/''"]
  have a: "fst (delete_by_url ''http://a.example/'' (VectorStore_init demo_model two_sources)) = 1
   \<and> map entry_id (entries (collection
         (snd (delete_by_url ''http://a.example/'' (VectorStore_init demo_model two_sources)))))
       = [''eb35c41484599737f68232f8a516d276'']
   \<and> collection_count (collection
         (snd (delete_by_url ''http://a.example/'' (VectorStore_init demo_model two_sources)))) = 1"
    unfolding Let_def c using d n by (simp add: e)
  from delete_by_url_matched [of "VectorStore_init demo_model two_sources" "''b.txt''"]
  have b: "fst (delete_by_url ''b.txt'' (VectorStore_init demo_model two_sources)) = 1
   \<and> map entry_id (entries (collection
         (snd (delete_by_url ''b.txt'' (VectorStore_init demo_model two_sources)))))
       = [''1769095beed828ab0402d55079411950'']"
    unfolding Let_def c using d n by (simp add: e)
  from delete_by_url_matched [of "VectorStore_init demo_model two_sources" "''c.txt''"]
  have z: "fst (delete_by_url ''c.txt'' (VectorStore_init demo_model two_sources)) = 0
   \<and> collection (snd (delete_by_url ''c.txt'' (VectorStore_init demo_model two_sources)))
       = two_sources"
    unfolding Let_def c by (simp add: e)
  from a b z d show ?thesis by blast
qed

section \<open>Search\<close>













section \<open>The chunker\<close>

lemma length_strip: "length (strip s) \<le> length s"
proof -
  have "length (strip s) \<le> length (dropWhile isspace s)"
    unfolding strip_def using length_dropWhile_le [of isspace "rev (dropWhile isspace s)"] by simp
  also have "\<dots> \<le> length s" by (rule length_dropWhile_le)
  finally show ?thesis .
qed

lemma join_docs_length: "join_docs docs = Some t \<Longrightarrow> length t \<le> length (concat docs)"
  using length_strip [of "concat docs"] by (auto simp: join_docs_def Let_def split: if_splits)

lemma emit_bound:
  "length (concat docs) \<le> cs \<Longrightarrow>
   list_all (\<lambda>c. length c \<le> cs) (case join_docs docs of None \<Rightarrow> [] | Some doc \<Rightarrow> [doc])"
  using join_docs_length [of docs] by (auto split: option.splits)

lemma shrink_fits:
  "length (concat (shrink cs ov l cur)) + l \<le> cs \<or> length (concat (shrink cs ov l cur)) = 0"
  by (induction cur) (auto simp: Let_def)

lemma merge_splits_bound:
  "length (concat cur) \<le> cs \<Longrightarrow> list_all (\<lambda>d. length d \<le> cs) ds \<Longrightarrow>
   list_all (\<lambda>c. length c \<le> cs) (merge_splits cs ov ds cur)"
proof (induction ds arbitrary: cur)
  case Nil
  then show ?case by (simp add: emit_bound)
next
  case (Cons d ds)
  from Cons.prems(2) have d: "length d \<le> cs" and ds: "list_all (\<lambda>d. length d \<le> cs) ds"
    by simp_all
  show ?case
  proof (cases "length (concat cur) + length d > cs \<and> cur \<noteq> []")
    case True
    have "length (concat (shrink cs ov (length d) cur @ [d])) \<le> cs"
      using shrink_fits [of cs ov "length d" cur] d by (simp del: length_0_conv) linarith
    from Cons.IH [OF this ds] True Cons.prems(1) show ?thesis
      by (simp add: emit_bound)
  next
    case False
    then have "length (concat (cur @ [d])) \<le> cs" using d by auto
    from Cons.IH [OF this ds] False show ?thesis by auto
  qed
qed

lemma process_splits_bound:
  assumes "list_all (\<lambda>s. cs \<le> length s \<longrightarrow> list_all (\<lambda>c. length c \<le> cs) (finer s)) ss"
    and "list_all (\<lambda>g. length g \<le> cs) good"
  shows "list_all (\<lambda>c. length c \<le> cs) (process_splits cs ov finer ss good)"
  using assms
proof (induction ss arbitrary: good)
  case Nil
  then show ?case by (simp add: merge_splits_bound)
next
  case (Cons s ss)
  show ?case
  proof (cases "length s < cs")
    case True
    with Cons.prems have "list_all (\<lambda>g. length g \<le> cs) (good @ [s])" by simp
    from Cons.IH [OF _ this] Cons.prems(1) True show ?thesis by simp
  next
    case False
    have "list_all (\<lambda>c. length c \<le> cs) (process_splits cs ov finer ss [])"
      using Cons.IH [of "[]"] Cons.prems(1) by simp
    with False Cons.prems show ?thesis by (simp add: merge_splits_bound)
  qed
qed

lemma choose_separator_empty_last:
  assumes "[] \<in> set seps"
  shows "\<exists>s rest. choose_separator t seps = Some (s, rest)
           \<and> (if s = [] then rest = [] else contains s t \<and> [] \<in> set rest)"
  using assms
proof (induction seps)
  case Nil
  then show ?case by simp
next
  case (Cons a seps)
  show ?case
  proof (cases "a = []")
    case True
    then show ?thesis by simp
  next
    case False
    with Cons.prems have e: "[] \<in> set seps" by auto
    show ?thesis
    proof (cases "contains a t")
      case True
      with False e show ?thesis by simp
    next
      case c: False
      with False Cons.IH [OF e] show ?thesis by simp
    qed
  qed
qed

lemma split_single_chars:
  "list_all (\<lambda>s. length s = 1) (split_text_with_regex t [])"
  by (simp add: split_text_with_regex_def list_all_iff)

lemma split_text_rec_bound:
  assumes "0 < cs" and "[] \<in> set seps"
  shows "list_all (\<lambda>c. length c \<le> cs) (split_text_rec cs ov t seps)"
  using assms(2)
proof (induction seps arbitrary: t rule: length_induct)
  case (1 seps)
  from choose_separator_empty_last [OF "1.prems", of t]
  obtain s rest where ch: "choose_separator t seps = Some (s, rest)"
    and sr: "if s = [] then rest = [] else contains s t \<and> [] \<in> set rest"
    by blast
  have ne: "seps \<noteq> []" using "1.prems" by auto
  let ?finer = "\<lambda>p. if rest = [] then [p] else split_text_rec cs ov p rest"
  have unfold: "split_text_rec cs ov t seps
                = process_splits cs ov ?finer (split_text_with_regex t s) []"
    using ne ch by (simp add: split_text_rec.simps [of cs ov t seps])
  have "list_all (\<lambda>p. cs \<le> length p \<longrightarrow> list_all (\<lambda>c. length c \<le> cs) (?finer p))
          (split_text_with_regex t s)"
  proof (cases "s = []")
    case True
    with sr have "rest = []" by simp
    with True split_single_chars [of t] assms(1) show ?thesis
      by (auto simp: list_all_iff)
  next
    case False
    with sr have r: "[] \<in> set rest" by simp
    then have "rest \<noteq> []" by auto
    moreover have "length rest < length seps" using ch by (rule choose_separator_shorter)
    ultimately show ?thesis
      using "1.IH" r by (simp add: list_all_iff)
  qed
  then show ?case
    unfolding unfold by (intro process_splits_bound) simp_all
qed

lemma strip_whitespace: "list_all isspace s \<Longrightarrow> strip s = []"
proof -
  assume "list_all isspace s"
  then have "dropWhile isspace s = []"
    by (induction s) auto
  then show ?thesis unfolding strip_def by (simp only: rev.simps dropWhile.simps)
qed

lemma join_docs_whitespace:
  "list_all (list_all isspace) docs \<Longrightarrow> join_docs docs = None"
  by (simp add: join_docs_def Let_def strip_whitespace list_all_iff)

lemma set_shrink: "set (shrink cs ov l cur) \<subseteq> set cur"
  by (induction cur) (auto simp: Let_def)

lemma merge_splits_whitespace:
  "list_all (list_all isspace) ds \<Longrightarrow> list_all (list_all isspace) cur \<Longrightarrow>
   merge_splits cs ov ds cur = []"
proof (induction ds arbitrary: cur)
  case Nil
  then show ?case by (simp add: join_docs_whitespace)
next
  case (Cons d ds)
  have "list_all (list_all isspace) (shrink cs ov (length d) cur @ [d])"
    using Cons.prems set_shrink [of cs ov "length d" cur] by (auto simp: list_all_iff)
  moreover have "list_all (list_all isspace) (cur @ [d])"
    using Cons.prems by simp
  ultimately show ?case
    using Cons.IH Cons.prems by (simp add: join_docs_whitespace)
qed

lemma process_splits_whitespace:
  assumes "list_all (\<lambda>s. list_all isspace s \<and> (cs \<le> length s \<longrightarrow> finer s = [])) ss"
    and "list_all (list_all isspace) good"
  shows "process_splits cs ov finer ss good = []"
  using assms
proof (induction ss arbitrary: good)
  case Nil
  then show ?case by (simp add: merge_splits_whitespace)
next
  case (Cons s ss)
  show ?case
  proof (cases "length s < cs")
    case True
    with Cons.prems have "list_all (list_all isspace) (good @ [s])" by simp
    from Cons.IH [OF _ this] Cons.prems(1) True show ?thesis by simp
  next
    case False
    have "process_splits cs ov finer ss [] = []"
      using Cons.IH [of "[]"] Cons.prems(1) by simp
    with False Cons.prems show ?thesis by (simp add: merge_splits_whitespace)
  qed
qed

lemma contains_set: "contains sep t \<Longrightarrow> set sep \<subseteq> set t"
proof (induction t)
  case Nil
  then show ?case by simp
next
  case (Cons c cs)
  from Cons.prems have "take (length sep) (c # cs) = sep \<or> contains sep cs" by simp
  then show ?case
  proof
    assume "take (length sep) (c # cs) = sep"
    then have "set sep = set (take (length sep) (c # cs))" by simp
    also have "\<dots> \<subseteq> set (c # cs)" by (rule set_take_subset)
    finally show ?thesis .
  next
    assume "contains sep cs"
    with Cons.IH show ?thesis by auto
  qed
qed

lemma re_split_chars: "p \<in> set (re_split sep t) \<Longrightarrow> set p \<subseteq> set t"
proof (induction sep t arbitrary: p rule: re_split.induct)
  case (1 sep)
  then show ?case by simp
next
  case (2 sep c cs)
  show ?case
  proof (cases "sep \<noteq> [] \<and> take (length sep) (c # cs) = sep")
    case True
    with "2.prems" have "p = [] \<or> p \<in> set (re_split sep (drop (length sep) (c # cs)))"
      by auto
    then show ?thesis
    proof
      assume "p = []" then show ?thesis by simp
    next
      assume "p \<in> set (re_split sep (drop (length sep) (c # cs)))"
      from "2.IH"(1) [OF True this] have "set p \<subseteq> set (drop (length sep) (c # cs))" .
      also have "\<dots> \<subseteq> set (c # cs)" by (rule set_drop_subset)
      finally show ?thesis .
    qed
  next
    case False
    show ?thesis
    proof (cases "re_split sep cs")
      case Nil
      with False "2.prems" show ?thesis by auto
    next
      case (Cons q qs)
      with False "2.prems" have "p = c # q \<or> p \<in> set qs" by auto
      then show ?thesis
      proof
        assume "p = c # q"
        moreover have "set q \<subseteq> set cs" using "2.IH"(2) [OF False, of q] Cons by simp
        ultimately show ?thesis by auto
      next
        assume "p \<in> set qs"
        then have "set p \<subseteq> set cs" using "2.IH"(2) [OF False, of p] Cons by simp
        then show ?thesis by auto
      qed
    qed
  qed
qed

lemma split_text_with_regex_chars:
  assumes "p \<in> set (split_text_with_regex t sep)"
  shows "set p \<subseteq> set t \<union> set sep"
proof (cases "sep = []")
  case True
  with assms show ?thesis by (auto simp: split_text_with_regex_def)
next
  case False
  show ?thesis
  proof (cases "re_split sep t")
    case Nil
    with False assms show ?thesis by (simp add: split_text_with_regex_def)
  next
    case (Cons t0 ts)
    with False assms have "p \<in> set (t0 # map (\<lambda>q. sep @ q) ts)"
      by (auto simp: split_text_with_regex_def split: if_splits)
    then have "p = t0 \<or> (\<exists>q \<in> set ts. p = sep @ q)"
      by auto
    moreover have "set t0 \<subseteq> set t" using re_split_chars [of t0 sep t] Cons by simp
    moreover have "\<forall>q \<in> set ts. set q \<subseteq> set t"
      using re_split_chars [of _ sep t] Cons by simp
    ultimately show ?thesis by fastforce
  qed
qed

lemma split_text_rec_whitespace:
  assumes "1 < cs" and "[] \<in> set seps" and "list_all isspace t"
  shows "split_text_rec cs ov t seps = []"
  using assms(2,3)
proof (induction seps arbitrary: t rule: length_induct)
  case (1 seps)
  from choose_separator_empty_last [OF "1.prems"(1), of t]
  obtain s rest where ch: "choose_separator t seps = Some (s, rest)"
    and sr: "if s = [] then rest = [] else contains s t \<and> [] \<in> set rest"
    by blast
  have ne: "seps \<noteq> []" using "1.prems" by auto
  let ?finer = "\<lambda>p. if rest = [] then [p] else split_text_rec cs ov p rest"
  have unfold: "split_text_rec cs ov t seps
                = process_splits cs ov ?finer (split_text_with_regex t s) []"
    using ne ch by (simp add: split_text_rec.simps [of cs ov t seps])
  have sp: "set s \<subseteq> set t"
    using sr contains_set [of s t] by (cases "s = []") auto
  have ws: "list_all isspace p" if "p \<in> set (split_text_with_regex t s)" for p
    using split_text_with_regex_chars [OF that] sp "1.prems"(2) by (auto simp: list_all_iff)
  have "list_all (\<lambda>p. list_all isspace p \<and> (cs \<le> length p \<longrightarrow> ?finer p = []))
          (split_text_with_regex t s)"
  proof (cases "s = []")
    case True
    with split_single_chars [of t] assms(1) ws show ?thesis
      by (auto simp: list_all_iff)
  next
    case False
    with sr have r: "[] \<in> set rest" by simp
    then have "rest \<noteq> []" by auto
    moreover have "length rest < length seps" using ch by (rule choose_separator_shorter)
    ultimately show ?thesis
      using "1.IH" r ws by (simp add: list_all_iff)
  qed
  then show ?case
    unfolding unfold by (intro process_splits_whitespace) simp_all
qed

lemma split_text_whitespace:
  "list_all isspace t \<Longrightarrow> split_text configured_splitter t = []"
  unfolding split_text_def
  using split_text_rec_whitespace [of 1000 "separators configured_splitter" t 200]
  by (simp add: configured_splitter_def)

lemma strip_no_space: "list_all (\<lambda>c. \<not> isspace c) s \<Longrightarrow> strip s = s"
proof -
  assume a: "list_all (\<lambda>c. \<not> isspace c) s"
  have d: "dropWhile isspace u = u" if "list_all (\<lambda>c. \<not> isspace c) u" for u
    using that by (cases u) auto
  have "list_all (\<lambda>c. \<not> isspace c) (rev s)" using a by (simp add: list_all_iff)
  then show ?thesis using a by (simp add: strip_def d)
qed

lemma join_docs_unbroken:
  assumes "list_all (\<lambda>d. d \<noteq> [] \<and> list_all (\<lambda>c. \<not> isspace c) d) docs" and "docs \<noteq> []"
  shows "join_docs docs = Some (concat docs)"
proof -
  have "list_all (\<lambda>c. \<not> isspace c) (concat docs)"
    using assms(1) by (auto simp: list_all_iff)
  moreover have "concat docs \<noteq> []"
    using assms by (cases docs) auto
  ultimately show ?thesis by (simp add: join_docs_def Let_def strip_no_space)
qed

lemma merge_splits_unbroken:
  assumes "list_all (\<lambda>d. d \<noteq> [] \<and> list_all (\<lambda>c. \<not> isspace c) d) ds"
    and "list_all (\<lambda>d. d \<noteq> [] \<and> list_all (\<lambda>c. \<not> isspace c) d) cur"
    and "ds \<noteq> [] \<or> cur \<noteq> []"
  shows "merge_splits cs ov ds cur \<noteq> []"
  using assms
proof (induction ds arbitrary: cur)
  case Nil
  then show ?case by (simp add: join_docs_unbroken)
next
  case (Cons d ds)
  have 1: "list_all (\<lambda>d. d \<noteq> [] \<and> list_all (\<lambda>c. \<not> isspace c) d)
             (shrink cs ov (length d) cur @ [d])"
    using Cons.prems(1,2) set_shrink [of cs ov "length d" cur] by (auto simp: list_all_iff)
  have 2: "list_all (\<lambda>d. d \<noteq> [] \<and> list_all (\<lambda>c. \<not> isspace c) d) (cur @ [d])"
    using Cons.prems(1,2) by simp
  from Cons.prems(1) have ds: "list_all (\<lambda>d. d \<noteq> [] \<and> list_all (\<lambda>c. \<not> isspace c) d) ds"
    by simp
  from Cons.IH [OF ds 1] Cons.IH [OF ds 2] show ?case by simp
qed

lemma process_splits_all_good:
  "list_all (\<lambda>s. length s < cs) ss \<Longrightarrow>
   process_splits cs ov finer ss good
     = (if good @ ss \<noteq> [] then merge_splits cs ov (good @ ss) [] else [])"
  by (induction ss arbitrary: good) auto

lemma contains_space:
  "contains sep t \<Longrightarrow> list_all (\<lambda>c. \<not> isspace c) t \<Longrightarrow> list_all (\<lambda>c. \<not> isspace c) sep"
  using contains_set [of sep t] by (auto simp: list_all_iff)

lemma split_text_unbroken:
  assumes "t \<noteq> []" and "list_all (\<lambda>c. \<not> isspace c) t"
  shows "split_text configured_splitter t \<noteq> []"
proof -
  have sp: "isspace newline" "isspace CHR '' ''"
    by (simp_all add: isspace_def newline_def)
  have n: "\<not> contains sep t" if "list_ex isspace sep" for sep
    using contains_space [OF _ assms(2), of sep] that by (auto simp: list_all_iff list_ex_iff)
  have ch: "choose_separator t (separators configured_splitter) = Some ([], [])"
    using sp by (simp add: configured_splitter_def n)
  have chars: "list_all (\<lambda>d. d \<noteq> [] \<and> list_all (\<lambda>c. \<not> isspace c) d) (map (\<lambda>c. [c]) t)"
    using assms(2) by (simp add: list_all_iff)
  have "split_text configured_splitter t = merge_splits 1000 200 (map (\<lambda>c. [c]) t) []"
    unfolding split_text_def
    using ch assms(1)
    by (simp add: split_text_rec.simps [of _ _ t] split_text_with_regex_def
          process_splits_all_good list_all_iff configured_splitter_def)
  also have "\<dots> \<noteq> []"
    using assms(1) by (intro merge_splits_unbroken chars) simp_all
  finally show ?thesis .
qed

text \<open>
  C9. Every chunk of the configured splitter has at most 1000 characters, for every
  text. The list of separators ends with the empty one, which cuts between any two
  characters, so there is no run of text that cannot be split, and the exception the
  claim allows for never occurs. \<open>split_text\<close> is a total function: the recursion goes
  down the list of separators and ends at the empty one. On unbroken text, which
  contains no whitespace and so none of the other separators, however long, it
  returns chunks (at least one, each within the bound).
\<close>

theorem split_text_chunk_bound:
  "list_all (\<lambda>chunk. length chunk \<le> 1000) (split_text configured_splitter t)
   \<and> (t \<noteq> [] \<and> list_all (\<lambda>c. \<not> isspace c) t \<longrightarrow> split_text configured_splitter t \<noteq> [])"
proof
  show "list_all (\<lambda>chunk. length chunk \<le> 1000) (split_text configured_splitter t)"
    unfolding split_text_def
    using split_text_rec_bound [of 1000 "separators configured_splitter" 200 t]
    by (simp add: configured_splitter_def)
next
  show "t \<noteq> [] \<and> list_all (\<lambda>c. \<not> isspace c) t \<longrightarrow> split_text configured_splitter t \<noteq> []"
    using split_text_unbroken [of t] by blast
qed

theorem split_text_chunk_bound_witness:
  "''hello'' \<noteq> [] \<and> list_all (\<lambda>c. \<not> isspace c) ''hello''
   \<and> split_text configured_splitter ''hello'' = [''hello'']
   \<and> list_all (\<lambda>chunk. length chunk \<le> 1000) (split_text configured_splitter ''hello'')"
proof -
  have 1: "''hello'' \<noteq> [] \<and> list_all (\<lambda>c. \<not> isspace c) ''hello''"
    by (simp add: isspace_def)
  from split_text_chunk_bound [of "''hello''"] 1 split_text_hello
  show ?thesis by blast
qed

section \<open>Nothing to add\<close>

text \<open>
  C5. When the splitter gives no chunk, \<open>add_document\<close> returns 0 and returns the
  store as it was: the collection, and so its count and every stored fragment, is
  unchanged, and no call to the embedder or to the collection has been recorded. On a
  store whose splitter is the configured one, this is so for every content that is
  empty or consists of whitespace only, and for every metadata record.
\<close>

theorem add_document_whitespace:
  "(text_splitter vs c = [] \<longrightarrow> add_document c md vs = (Inr 0, vs))
   \<and> (text_splitter vs = split_text configured_splitter \<and> list_all isspace c
        \<longrightarrow> add_document c md vs = (Inr 0, vs)
          \<and> collection_count (collection (snd (add_document c md vs)))
              = collection_count (collection vs)
          \<and> calls (snd (add_document c md vs)) = calls vs)"
  by (simp add: add_document_empty split_text_whitespace)

theorem add_document_whitespace_witness:
  "text_splitter demo_store = split_text configured_splitter
   \<and> list_all isspace [CHR '' '', newline, CHR '' ''] \<and> list_all isspace ''''
   \<and> text_splitter demo_store '''' = []
   \<and> add_document [CHR '' '', newline, CHR '' ''] [''url'' \<mapsto> MStr ''u''] demo_store
       = (Inr 0, demo_store)
   \<and> add_document '''' [''url'' \<mapsto> MStr ''u''] demo_store = (Inr 0, demo_store)"
proof -
  have s: "text_splitter demo_store = split_text configured_splitter"
    by (simp add: demo_store_def VectorStore_init_def)
  have w: "list_all isspace [CHR '' '', newline, CHR '' '']"
    by (simp add: isspace_def newline_def)
  have e: "list_all isspace ''''" by simp
  have n: "text_splitter demo_store '''' = []"
    unfolding s by (rule split_text_whitespace [OF e])
  from add_document_whitespace [of demo_store "[CHR '' '', newline, CHR '' '']" "[''url'' \<mapsto> MStr ''u'']"]
    add_document_whitespace [of demo_store "''''" "[''url'' \<mapsto> MStr ''u'']"] s w e n
  show ?thesis by blast
qed

end
